theory Spec2Isabelle
  imports Main "HOL-Library.Sublist"
begin

section \<open>Python values used by the interactive shell\<close>

text \<open>
  A Python \<open>str\<close> is a sequence of Unicode code points, a \<open>bytes\<close> object a sequence
  of octets. \<open>sys.stdin.read(1)\<close> yields a \<open>str\<close> of length one, or the empty \<open>str\<close>
  at end of input.
\<close>

type_synonym str = "nat list"
type_synonym bytes = "char list"

definition str_of :: "string \<Rightarrow> str" where
  "str_of cs = map of_char cs"

abbreviation CR :: nat where "CR \<equiv> 13"
abbreviation BS :: nat where "BS \<equiv> 8"
abbreviation DEL :: nat where "DEL \<equiv> 127"
abbreviation GS :: nat where "GS \<equiv> 29"

text \<open>
  \<open>CR\<close> is \<open>'\r'\<close>, \<open>BS\<close> is \<open>'\b'\<close>, \<open>DEL\<close> is \<open>'\x7f'\<close> and \<open>GS\<close> is \<open>'\x1d'\<close>
  (Ctrl+]), the character that leaves the shell.

  The two library functions whose result depends on the interpreter's codec and Unicode
  database are parameters of the model: \<open>bytes.decode()\<close> (\<open>None\<close> stands for
  \<open>UnicodeDecodeError\<close>) and \<open>str.isprintable\<close> on code points outside ASCII.
\<close>

record runtime =
  decode :: "bytes \<Rightarrow> str option"
  unicode_printable :: "nat \<Rightarrow> bool"

definition isspace :: "nat \<Rightarrow> bool" where
  "isspace c \<longleftrightarrow>
     (9 \<le> c \<and> c \<le> 13) \<or> (28 \<le> c \<and> c \<le> 32) \<or> c = 0x85 \<or> c = 0xA0 \<or> c = 0x1680 \<or>
     (0x2000 \<le> c \<and> c \<le> 0x200A) \<or> c = 0x2028 \<or> c = 0x2029 \<or> c = 0x202F \<or>
     c = 0x205F \<or> c = 0x3000"

definition strip :: "str \<Rightarrow> str" where
  "strip s = rev (dropWhile isspace (rev (dropWhile isspace s)))"

definition isprintable_char :: "runtime \<Rightarrow> nat \<Rightarrow> bool" where
  "isprintable_char rt c = (if c < 128 then 32 \<le> c \<and> c < 127 else unicode_printable rt c)"

definition isprintable :: "runtime \<Rightarrow> str \<Rightarrow> bool" where
  "isprintable rt s = list_all (isprintable_char rt) s"

text \<open>The slice \<open>s[:-1]\<close>: the stop index \<open>len(s) - 1\<close> is clamped at \<open>0\<close>.\<close>

definition slice_to_minus1 :: "str \<Rightarrow> str" where
  "slice_to_minus1 s = take (nat (int (length s) - 1)) s"

section \<open>The environment of a session\<close>

text \<open>
  Every call that leaves the program is recorded, in order, with its argument. What such
  a call returns or raises is given by the environment: one \<open>ready\<close> record for each
  pass through the loop, and the outcomes of the terminal calls around it.
\<close>

type_synonym attrs = "int list"

datatype exn =
    SocketTimeout | SocketError | SelectError | TermiosError
  | UnicodeDecodeError | StdoutError | StdinError

datatype io_call =
    TcGetAttr | SetRaw | TcSetAttr attrs
  | Select | Recv | Write str | Flush | Read | Send str | Print str

record ready =
  select_result :: "exn + bool \<times> bool"
  recv_result :: "exn + bytes"
  write_result :: "exn option"
  flush_result :: "exn option"
  read_result :: "exn + nat option"
  send_result :: "exn option"

record env =
  tcgetattr_result :: "exn + attrs"
  setraw_result :: "exn option"
  iterations :: "ready list"
  tcsetattr_result :: "exn option"
  print_result :: "exn option"

text \<open>
  \<open>select_result\<close> is \<open>Inr (channel in r, sys.stdin in r)\<close> when \<open>select.select\<close>
  returns; \<open>recv_result\<close> is what \<open>channel.recv(1024)\<close> returns or raises;
  \<open>read_result\<close> is \<open>Inr (Some c)\<close> for the character read, \<open>Inr None\<close> for the empty
  string. An outcome is only looked at when the call is reached.
\<close>

datatype 'st flow = Continue 'st | Break 'st | Raise exn 'st

fun state_of :: "'st flow \<Rightarrow> 'st" where
  "state_of (Continue s) = s"
| "state_of (Break s) = s"
| "state_of (Raise e s) = s"

datatype outcome = Returned | Raised exn | Waiting

text \<open>
  A session either returns, raises, or is still \<open>Waiting\<close> in \<open>select\<close> when the
  environment has no further event: the loop has no other way to end.
\<close>

record session =
  command_buffer :: str
  commands_log :: "str list"
  calls :: "io_call list"

definition call :: "io_call \<Rightarrow> session \<Rightarrow> session" where
  "call c s = s\<lparr>calls := calls s @ [c]\<rparr>"

definition read_str :: "nat option \<Rightarrow> str" where
  "read_str k = (case k of None \<Rightarrow> [] | Some c \<Rightarrow> [c])"

section \<open>CA1/P2/admin\_connection.py\<close>

definition setup_terminal :: "env \<Rightarrow> io_call list \<Rightarrow> (exn + attrs) \<times> io_call list" where
  "setup_terminal ev io =
     (case tcgetattr_result ev of
        Inl e \<Rightarrow> (Inl e, io @ [TcGetAttr])
      | Inr old_attrs \<Rightarrow>
          (case setraw_result ev of
             Some e \<Rightarrow> (Inl e, io @ [TcGetAttr, SetRaw])
           | None \<Rightarrow> (Inr old_attrs, io @ [TcGetAttr, SetRaw])))"

definition restore_terminal :: "env \<Rightarrow> attrs \<Rightarrow> io_call list \<Rightarrow> exn option \<times> io_call list" where
  "restore_terminal ev old_attrs io = (tcsetattr_result ev, io @ [TcSetAttr old_attrs])"

text \<open>Lines 42--49: the keystroke is folded into the command buffer and the log.\<close>

definition record_keystroke :: "runtime \<Rightarrow> str \<Rightarrow> session \<Rightarrow> session" where
  "record_keystroke rt char s =
     (if char = [CR] then
        (if strip (command_buffer s) \<noteq> [] then
           s\<lparr>commands_log := commands_log s @ [strip (command_buffer s)], command_buffer := []\<rparr>
         else s\<lparr>command_buffer := []\<rparr>)
      else if char \<in> set [[DEL], [BS]] then
        s\<lparr>command_buffer := slice_to_minus1 (command_buffer s)\<rparr>
      else if isprintable rt char then
        s\<lparr>command_buffer := command_buffer s @ char\<rparr>
      else s)"

text \<open>Lines 37--49: the \<open>if sys.stdin in r\<close> block.\<close>

definition stdin_block :: "runtime \<Rightarrow> ready \<Rightarrow> bool \<Rightarrow> session \<Rightarrow> session flow" where
  "stdin_block rt r stdin_in_r s =
     (if stdin_in_r then
        (case read_result r of
           Inl e \<Rightarrow> Raise e (call Read s)
         | Inr k \<Rightarrow>
             (let char = read_str k; s1 = call Read s in
              if char = [GS] then Break s1
              else
                (let s2 = call (Send char) s1 in
                 case send_result r of
                   Some e \<Rightarrow> Raise e s2
                 | None \<Rightarrow> Continue (record_keystroke rt char s2))))
      else Continue s)"

text \<open>
  Lines 29--36: the inner \<open>try\<close>. An exception raised inside it is caught when it is
  \<open>socket.timeout\<close>, and the handler's \<open>continue\<close> starts the next pass.
\<close>

definition except_timeout :: "exn \<Rightarrow> 'st \<Rightarrow> 'st flow" where
  "except_timeout e s = (if e = SocketTimeout then Continue s else Raise e s)"

text \<open>Lines 27--49: one pass through the body of \<open>while True\<close>.\<close>

definition iteration :: "runtime \<Rightarrow> ready \<Rightarrow> session \<Rightarrow> session flow" where
  "iteration rt r s =
     (let s0 = call Select s in
      case select_result r of
        Inl e \<Rightarrow> Raise e s0
      | Inr (channel_in_r, stdin_in_r) \<Rightarrow>
          if channel_in_r then
            (let s1 = call Recv s0 in
             case recv_result r of
               Inl e \<Rightarrow> except_timeout e s1
             | Inr data \<Rightarrow>
                 if data = [] then Break s1
                 else
                   (case decode rt data of
                      None \<Rightarrow> except_timeout UnicodeDecodeError s1
                    | Some text \<Rightarrow>
                        (let s2 = call (Write text) s1 in
                         case write_result r of
                           Some e \<Rightarrow> except_timeout e s2
                         | None \<Rightarrow>
                             (let s3 = call Flush s2 in
                              case flush_result r of
                                Some e \<Rightarrow> except_timeout e s3
                              | None \<Rightarrow> stdin_block rt r stdin_in_r s3))))
          else stdin_block rt r stdin_in_r s0)"

fun loop :: "runtime \<Rightarrow> ready list \<Rightarrow> session \<Rightarrow> session flow" where
  "loop rt [] s = Continue s"
| "loop rt (r # rs) s =
     (case iteration rt r s of
        Continue s' \<Rightarrow> loop rt rs s'
      | Break s' \<Rightarrow> Break s'
      | Raise e s' \<Rightarrow> Raise e s')"

text \<open>
  Lines 51--55: the \<open>finally\<close> block, entered with the exception that is being
  propagated, if any. An exception raised by the block itself replaces it.
\<close>

definition finally_block :: "env \<Rightarrow> attrs \<Rightarrow> exn option \<Rightarrow> session \<Rightarrow> outcome \<times> session" where
  "finally_block ev old_attrs pending s =
     (let s1 = (if strip (command_buffer s) \<noteq> [] then
                  s\<lparr>commands_log := commands_log s @ [strip (command_buffer s)]\<rparr>
                else s)
      in case restore_terminal ev old_attrs (calls s1) of
           (Some e, io) \<Rightarrow> (Raised e, s1\<lparr>calls := io\<rparr>)
         | (None, io) \<Rightarrow>
             (let s3 = s1\<lparr>calls := io @ [Print (10 # str_of ''Connection closed.'')]\<rparr> in
              case print_result ev of
                Some e \<Rightarrow> (Raised e, s3)
              | None \<Rightarrow> (case pending of None \<Rightarrow> Returned | Some e \<Rightarrow> Raised e, s3)))"

definition interactive_shell :: "runtime \<Rightarrow> env \<Rightarrow> str list \<Rightarrow> outcome \<times> session" where
  "interactive_shell rt ev log0 =
     (case setup_terminal ev [] of
        (Inl e, io) \<Rightarrow> (Raised e, \<lparr>command_buffer = [], commands_log = log0, calls = io\<rparr>)
      | (Inr old_attrs, io) \<Rightarrow>
          (case loop rt (iterations ev) \<lparr>command_buffer = [], commands_log = log0, calls = io\<rparr> of
             Continue s \<Rightarrow> (Waiting, s)
           | Break s \<Rightarrow> finally_block ev old_attrs None s
           | Raise e s \<Rightarrow> finally_block ev old_attrs (Some e) s))"

section \<open>CA1/P2/user\_connection.py\<close>

text \<open>Lines 10--55 of this file repeat the functions of the first one.\<close>

definition user_setup_terminal :: "env \<Rightarrow> io_call list \<Rightarrow> (exn + attrs) \<times> io_call list" where
  "user_setup_terminal ev io =
     (case tcgetattr_result ev of
        Inl e \<Rightarrow> (Inl e, io @ [TcGetAttr])
      | Inr old_attrs \<Rightarrow>
          (case setraw_result ev of
             Some e \<Rightarrow> (Inl e, io @ [TcGetAttr, SetRaw])
           | None \<Rightarrow> (Inr old_attrs, io @ [TcGetAttr, SetRaw])))"

definition user_restore_terminal :: "env \<Rightarrow> attrs \<Rightarrow> io_call list \<Rightarrow> exn option \<times> io_call list" where
  "user_restore_terminal ev old_attrs io = (tcsetattr_result ev, io @ [TcSetAttr old_attrs])"

definition user_record_keystroke :: "runtime \<Rightarrow> str \<Rightarrow> session \<Rightarrow> session" where
  "user_record_keystroke rt char s =
     (if char = [CR] then
        (if strip (command_buffer s) \<noteq> [] then
           s\<lparr>commands_log := commands_log s @ [strip (command_buffer s)], command_buffer := []\<rparr>
         else s\<lparr>command_buffer := []\<rparr>)
      else if char \<in> set [[DEL], [BS]] then
        s\<lparr>command_buffer := slice_to_minus1 (command_buffer s)\<rparr>
      else if isprintable rt char then
        s\<lparr>command_buffer := command_buffer s @ char\<rparr>
      else s)"

definition user_stdin_block :: "runtime \<Rightarrow> ready \<Rightarrow> bool \<Rightarrow> session \<Rightarrow> session flow" where
  "user_stdin_block rt r stdin_in_r s =
     (if stdin_in_r then
        (case read_result r of
           Inl e \<Rightarrow> Raise e (call Read s)
         | Inr k \<Rightarrow>
             (let char = read_str k; s1 = call Read s in
              if char = [GS] then Break s1
              else
                (let s2 = call (Send char) s1 in
                 case send_result r of
                   Some e \<Rightarrow> Raise e s2
                 | None \<Rightarrow> Continue (user_record_keystroke rt char s2))))
      else Continue s)"

definition user_iteration :: "runtime \<Rightarrow> ready \<Rightarrow> session \<Rightarrow> session flow" where
  "user_iteration rt r s =
     (let s0 = call Select s in
      case select_result r of
        Inl e \<Rightarrow> Raise e s0
      | Inr (channel_in_r, stdin_in_r) \<Rightarrow>
          if channel_in_r then
            (let s1 = call Recv s0 in
             case recv_result r of
               Inl e \<Rightarrow> except_timeout e s1
             | Inr data \<Rightarrow>
                 if data = [] then Break s1
                 else
                   (case decode rt data of
                      None \<Rightarrow> except_timeout UnicodeDecodeError s1
                    | Some text \<Rightarrow>
                        (let s2 = call (Write text) s1 in
                         case write_result r of
                           Some e \<Rightarrow> except_timeout e s2
                         | None \<Rightarrow>
                             (let s3 = call Flush s2 in
                              case flush_result r of
                                Some e \<Rightarrow> except_timeout e s3
                              | None \<Rightarrow> user_stdin_block rt r stdin_in_r s3))))
          else user_stdin_block rt r stdin_in_r s0)"

fun user_loop :: "runtime \<Rightarrow> ready list \<Rightarrow> session \<Rightarrow> session flow" where
  "user_loop rt [] s = Continue s"
| "user_loop rt (r # rs) s =
     (case user_iteration rt r s of
        Continue s' \<Rightarrow> user_loop rt rs s'
      | Break s' \<Rightarrow> Break s'
      | Raise e s' \<Rightarrow> Raise e s')"

definition user_finally_block :: "env \<Rightarrow> attrs \<Rightarrow> exn option \<Rightarrow> session \<Rightarrow> outcome \<times> session" where
  "user_finally_block ev old_attrs pending s =
     (let s1 = (if strip (command_buffer s) \<noteq> [] then
                  s\<lparr>commands_log := commands_log s @ [strip (command_buffer s)]\<rparr>
                else s)
      in case user_restore_terminal ev old_attrs (calls s1) of
           (Some e, io) \<Rightarrow> (Raised e, s1\<lparr>calls := io\<rparr>)
         | (None, io) \<Rightarrow>
             (let s3 = s1\<lparr>calls := io @ [Print (10 # str_of ''Connection closed.'')]\<rparr> in
              case print_result ev of
                Some e \<Rightarrow> (Raised e, s3)
              | None \<Rightarrow> (case pending of None \<Rightarrow> Returned | Some e \<Rightarrow> Raised e, s3)))"

definition user_interactive_shell :: "runtime \<Rightarrow> env \<Rightarrow> str list \<Rightarrow> outcome \<times> session" where
  "user_interactive_shell rt ev log0 =
     (case user_setup_terminal ev [] of
        (Inl e, io) \<Rightarrow> (Raised e, \<lparr>command_buffer = [], commands_log = log0, calls = io\<rparr>)
      | (Inr old_attrs, io) \<Rightarrow>
          (case user_loop rt (iterations ev) \<lparr>command_buffer = [], commands_log = log0, calls = io\<rparr> of
             Continue s \<Rightarrow> (Waiting, s)
           | Break s \<Rightarrow> user_finally_block ev old_attrs None s
           | Raise e s \<Rightarrow> user_finally_block ev old_attrs (Some e) s))"

section \<open>CA1/P3/cluster\_system\_health\_monitor.py\<close>

text \<open>
  Lines 172--196. This \<open>interactive_shell\<close> takes the channel only: it has no command
  buffer and no log, so its state is the sequence of calls alone.
\<close>

definition monitor_stdin_block :: "ready \<Rightarrow> bool \<Rightarrow> io_call list \<Rightarrow> io_call list flow" where
  "monitor_stdin_block r stdin_in_r io =
     (if stdin_in_r then
        (case read_result r of
           Inl e \<Rightarrow> Raise e (io @ [Read])
         | Inr k \<Rightarrow>
             (let char = read_str k; io1 = io @ [Read] in
              if char = [GS] then Break io1
              else
                (let io2 = io1 @ [Send char] in
                 case send_result r of
                   Some e \<Rightarrow> Raise e io2
                 | None \<Rightarrow> Continue io2)))
      else Continue io)"

definition monitor_iteration :: "runtime \<Rightarrow> ready \<Rightarrow> io_call list \<Rightarrow> io_call list flow" where
  "monitor_iteration rt r io =
     (let io0 = io @ [Select] in
      case select_result r of
        Inl e \<Rightarrow> Raise e io0
      | Inr (channel_in_r, stdin_in_r) \<Rightarrow>
          if channel_in_r then
            (let io1 = io0 @ [Recv] in
             case recv_result r of
               Inl e \<Rightarrow> except_timeout e io1
             | Inr data \<Rightarrow>
                 if data = [] then Break io1
                 else
                   (case decode rt data of
                      None \<Rightarrow> except_timeout UnicodeDecodeError io1
                    | Some text \<Rightarrow>
                        (let io2 = io1 @ [Write text] in
                         case write_result r of
                           Some e \<Rightarrow> except_timeout e io2
                         | None \<Rightarrow>
                             (let io3 = io2 @ [Flush] in
                              case flush_result r of
                                Some e \<Rightarrow> except_timeout e io3
                              | None \<Rightarrow> monitor_stdin_block r stdin_in_r io3))))
          else monitor_stdin_block r stdin_in_r io0)"

fun monitor_loop :: "runtime \<Rightarrow> ready list \<Rightarrow> io_call list \<Rightarrow> io_call list flow" where
  "monitor_loop rt [] io = Continue io"
| "monitor_loop rt (r # rs) io =
     (case monitor_iteration rt r io of
        Continue io' \<Rightarrow> monitor_loop rt rs io'
      | Break io' \<Rightarrow> Break io'
      | Raise e io' \<Rightarrow> Raise e io')"

definition monitor_finally_block :: "env \<Rightarrow> attrs \<Rightarrow> exn option \<Rightarrow> io_call list \<Rightarrow> outcome \<times> io_call list" where
  "monitor_finally_block ev old_attrs pending io =
     (let io1 = io @ [TcSetAttr old_attrs] in
      case tcsetattr_result ev of
        Some e \<Rightarrow> (Raised e, io1)
      | None \<Rightarrow>
          (let io2 = io1 @ [Print (10 # str_of ''Shell session ended.'')] in
           case print_result ev of
             Some e \<Rightarrow> (Raised e, io2)
           | None \<Rightarrow> (case pending of None \<Rightarrow> Returned | Some e \<Rightarrow> Raised e, io2)))"

definition monitor_interactive_shell :: "runtime \<Rightarrow> env \<Rightarrow> outcome \<times> io_call list" where
  "monitor_interactive_shell rt ev =
     (case tcgetattr_result ev of
        Inl e \<Rightarrow> (Raised e, [TcGetAttr])
      | Inr old_attrs \<Rightarrow>
          (case setraw_result ev of
             Some e \<Rightarrow> (Raised e, [TcGetAttr, SetRaw])
           | None \<Rightarrow>
               (case monitor_loop rt (iterations ev) [TcGetAttr, SetRaw] of
                  Continue io \<Rightarrow> (Waiting, io)
                | Break io \<Rightarrow> monitor_finally_block ev old_attrs None io
                | Raise e io \<Rightarrow> monitor_finally_block ev old_attrs (Some e) io)))"

section \<open>Observations and concrete environments\<close>

text \<open>The calls that touch the terminal mode, and the closing message.\<close>

fun tty_call :: "io_call \<Rightarrow> bool" where
  "tty_call TcGetAttr = True"
| "tty_call SetRaw = True"
| "tty_call (TcSetAttr a) = True"
| "tty_call c = False"

fun restore_call :: "io_call \<Rightarrow> bool" where
  "restore_call (TcSetAttr a) = True"
| "restore_call c = False"

fun forwarding :: "io_call \<Rightarrow> bool" where
  "forwarding (Print m) = False"
| "forwarding c = True"

text \<open>
  What a caller can observe of a session: how it ended, the calls it made, and the
  command log afterwards. The monitor's shell is given no log, so whatever log its
  caller holds is left as it was.
\<close>

record behaviour =
  ending :: outcome
  effects :: "io_call list"
  logged :: "str list"

definition admin_behaviour :: "runtime \<Rightarrow> env \<Rightarrow> str list \<Rightarrow> behaviour" where
  "admin_behaviour rt ev log0 =
     (case interactive_shell rt ev log0 of
        (out, s) \<Rightarrow> \<lparr>ending = out, effects = calls s, logged = commands_log s\<rparr>)"

definition user_behaviour :: "runtime \<Rightarrow> env \<Rightarrow> str list \<Rightarrow> behaviour" where
  "user_behaviour rt ev log0 =
     (case user_interactive_shell rt ev log0 of
        (out, s) \<Rightarrow> \<lparr>ending = out, effects = calls s, logged = commands_log s\<rparr>)"

definition monitor_behaviour :: "runtime \<Rightarrow> env \<Rightarrow> str list \<Rightarrow> behaviour" where
  "monitor_behaviour rt ev log0 =
     (case monitor_interactive_shell rt ev of
        (out, io) \<Rightarrow> \<lparr>ending = out, effects = io, logged = log0\<rparr>)"

text \<open>
  A runtime restricted to ASCII, for evaluating concrete sessions: decoding accepts 7-bit
  data only, where UTF-8 decoding is the identity, and no code point above 127 counts as
  printable. The general theorems hold for every runtime.
\<close>

definition ascii_runtime :: runtime where
  "ascii_runtime =
     \<lparr>decode = (\<lambda>b. if list_all (\<lambda>c. (of_char c :: nat) < 128) b
                     then Some (map of_char b) else None),
      unicode_printable = (\<lambda>c. False)\<rparr>"

text \<open>
  One pass in which \<open>select\<close> reports the two sources as given, \<open>recv\<close> has the given
  outcome, the key \<open>k\<close> is what \<open>read\<close> returns, and no other call fails.
\<close>

definition pass :: "bool \<Rightarrow> bool \<Rightarrow> exn + bytes \<Rightarrow> nat option \<Rightarrow> ready" where
  "pass ch kb rcv k =
     \<lparr>select_result = Inr (ch, kb), recv_result = rcv, write_result = None,
      flush_result = None, read_result = Inr k, send_result = None\<rparr>"

definition keystroke :: "nat \<Rightarrow> ready" where
  "keystroke c = pass False True (Inl SocketTimeout) (Some c)"

definition remote_eof :: ready where
  "remote_eof = pass True False (Inr []) None"

text \<open>A keystroke whose \<open>send\<close> raises, and channel data whose \<open>write\<close> raises.\<close>

definition send_fails :: "nat \<Rightarrow> ready" where
  "send_fails c = (keystroke c)\<lparr>send_result := Some SocketError\<rparr>"

definition write_fails :: "bytes \<Rightarrow> ready" where
  "write_fails data = (pass True False (Inr data) None)\<lparr>write_result := Some StdoutError\<rparr>"

definition tty_env :: "ready list \<Rightarrow> env" where
  "tty_env rs =
     \<lparr>tcgetattr_result = Inr [1, 2, 3], setraw_result = None, iterations = rs,
      tcsetattr_result = None, print_result = None\<rparr>"

definition fresh :: "str list \<Rightarrow> io_call list \<Rightarrow> session" where
  "fresh log0 io = \<lparr>command_buffer = [], commands_log = log0, calls = io\<rparr>"

text \<open>Feeding a sequence of characters, one at a time, to lines 42--49.\<close>

definition feed :: "runtime \<Rightarrow> str \<Rightarrow> session \<Rightarrow> session" where
  "feed rt cs s = foldl (\<lambda>s c. record_keystroke rt [c] s) s cs"

text \<open>
  The state of a session is \<open>clean\<close> with respect to the log it was started with when
  the log has only grown, every entry added is non-empty after trimming and free of
  \<open>CR\<close> and \<open>GS\<close>, the buffer is free of both, and no \<open>send\<close> carried \<open>GS\<close>.
\<close>

definition clean_entry :: "str \<Rightarrow> bool" where
  "clean_entry e \<longleftrightarrow> strip e \<noteq> [] \<and> CR \<notin> set e \<and> GS \<notin> set e"

fun clean_call :: "io_call \<Rightarrow> bool" where
  "clean_call (Send x) = (GS \<notin> set x)"
| "clean_call c = True"

definition clean :: "str list \<Rightarrow> session \<Rightarrow> bool" where
  "clean log0 s \<longleftrightarrow>
     prefix log0 (commands_log s) \<and>
     list_all clean_entry (drop (length log0) (commands_log s)) \<and>
     CR \<notin> set (command_buffer s) \<and> GS \<notin> set (command_buffer s) \<and>
     list_all clean_call (calls s)"

section \<open>Properties of the library functions\<close>

lemma dropWhile_idem: "dropWhile P (dropWhile P xs) = dropWhile P xs"
  by (induction xs) auto

lemma strip_idem: "strip (strip s) = strip s"
proof -
  define t where "t = dropWhile isspace s"
  define u where "u = rev (dropWhile isspace (rev t))"
  have su: "strip s = u" by (simp add: strip_def t_def u_def)
  have ht: "t \<noteq> [] \<Longrightarrow> \<not> isspace (hd t)"
    unfolding t_def by (simp add: hd_dropWhile)
  have "dropWhile isspace u = u"
  proof (cases "u = []")
    case True then show ?thesis by simp
  next
    case False
    have "\<exists>v. t = u @ v"
    proof -
      have "rev t = takeWhile isspace (rev t) @ dropWhile isspace (rev t)" by simp
      then have "t = rev (dropWhile isspace (rev t)) @ rev (takeWhile isspace (rev t))"
        by (metis rev_append rev_rev_ident)
      then show ?thesis unfolding u_def by blast
    qed
    then obtain v where tv: "t = u @ v" by blast
    with False have "hd u = hd t" "t \<noteq> []" by auto
    with ht have "\<not> isspace (hd u)" by simp
    with False show ?thesis by (cases u) auto
  qed
  then have "strip u = rev (dropWhile isspace (rev u))" by (simp add: strip_def)
  also have "rev u = dropWhile isspace (rev t)" by (simp add: u_def)
  also have "rev (dropWhile isspace (dropWhile isspace (rev t))) = u"
    by (simp add: dropWhile_idem u_def)
  finally show ?thesis using su by simp
qed

lemma set_strip: "set (strip s) \<subseteq> set s"
  unfolding strip_def by (metis set_dropWhileD set_rev subsetI)

lemma slice_to_minus1_butlast: "slice_to_minus1 s = butlast s"
  by (cases s rule: rev_cases) (simp_all add: slice_to_minus1_def)

section \<open>The user's shell is the administrator's\<close>

lemma user_record_keystroke_eq: "user_record_keystroke = record_keystroke"
  by (intro ext) (simp add: user_record_keystroke_def record_keystroke_def)

lemma user_stdin_block_eq: "user_stdin_block = stdin_block"
  unfolding user_stdin_block_def stdin_block_def user_record_keystroke_eq by (rule refl)

lemma user_iteration_eq: "user_iteration = iteration"
  unfolding user_iteration_def iteration_def user_stdin_block_eq by (rule refl)

lemma user_loop_eq: "user_loop rt rs s = loop rt rs s"
  by (induction rs arbitrary: s) (simp_all add: user_iteration_eq split: flow.splits)

lemma user_restore_terminal_eq: "user_restore_terminal = restore_terminal"
  unfolding user_restore_terminal_def restore_terminal_def by (rule refl)

lemma user_setup_terminal_eq: "user_setup_terminal = setup_terminal"
  unfolding user_setup_terminal_def setup_terminal_def by (rule refl)

lemma user_finally_block_eq: "user_finally_block = finally_block"
  unfolding user_finally_block_def finally_block_def user_restore_terminal_eq by (rule refl)

lemma user_interactive_shell_eq: "user_interactive_shell rt ev log0 = interactive_shell rt ev log0"
  unfolding user_interactive_shell_def interactive_shell_def user_setup_terminal_eq
    user_loop_eq user_finally_block_eq by (rule refl)

section \<open>The monitor's loop is the administrator's without buffer and log\<close>

lemma calls_record_keystroke: "calls (record_keystroke rt c s) = calls s"
  by (simp add: record_keystroke_def)

lemma monitor_stdin_block_sim:
  "map_flow calls (stdin_block rt r b s) = monitor_stdin_block r b (calls s)"
  by (simp add: stdin_block_def monitor_stdin_block_def call_def Let_def calls_record_keystroke
      split: sum.splits option.splits)

lemma monitor_iteration_sim:
  "map_flow calls (iteration rt r s) = monitor_iteration rt r (calls s)"
  by (simp add: iteration_def monitor_iteration_def call_def Let_def except_timeout_def
      monitor_stdin_block_sim
      split: sum.splits option.splits prod.splits)

lemma monitor_loop_sim:
  "map_flow calls (loop rt rs s) = monitor_loop rt rs (calls s)"
proof (induction rs arbitrary: s)
  case Nil
  show ?case by simp
next
  case (Cons r rs)
  show ?case
    using monitor_iteration_sim [of rt r s, symmetric]
    by (cases "iteration rt r s") (simp_all add: Cons.IH)
qed

section \<open>The invariant of a session\<close>

lemma clean_entry_strip:
  assumes "strip b \<noteq> []" "CR \<notin> set b" "GS \<notin> set b"
  shows "clean_entry (strip b)"
  using assms set_strip [of b] by (auto simp: clean_entry_def strip_idem)

lemma clean_append_entry:
  assumes "clean log0 s" "strip (command_buffer s) \<noteq> []"
  shows "clean log0 (s\<lparr>commands_log := commands_log s @ [strip (command_buffer s)]\<rparr>)"
proof -
  from assms(1) obtain new where n: "commands_log s = log0 @ new"
    by (auto simp: clean_def prefix_def)
  with assms show ?thesis
    by (simp add: clean_def clean_entry_strip)
qed

lemma clean_call: "clean log0 s \<Longrightarrow> clean_call c \<Longrightarrow> clean log0 (call c s)"
  by (simp add: clean_def call_def)

lemma short_str: "length (char :: str) \<le> 1 \<Longrightarrow> char \<noteq> [c] \<Longrightarrow> c \<notin> set char"
  by (cases char) auto

lemma record_keystroke_clean:
  assumes "clean log0 s" "length char \<le> 1" "char \<noteq> [GS]"
  shows "clean log0 (record_keystroke rt char s)"
proof (cases "char = [CR]")
  case True
  have "clean log0 (s\<lparr>command_buffer := []\<rparr>)"
    using assms(1) by (simp add: clean_def)
  moreover have "strip (command_buffer s) \<noteq> [] \<Longrightarrow>
      clean log0 (s\<lparr>commands_log := commands_log s @ [strip (command_buffer s)], command_buffer := []\<rparr>)"
    using clean_append_entry [OF assms(1)] by (simp add: clean_def)
  ultimately show ?thesis using True by (simp add: record_keystroke_def)
next
  case False
  with assms have "CR \<notin> set char" "GS \<notin> set char"
    using short_str [of char CR] short_str [of char GS] by blast+
  with assms(1) have "clean log0 (s\<lparr>command_buffer := command_buffer s @ char\<rparr>)"
    by (simp add: clean_def)
  moreover have "clean log0 (s\<lparr>command_buffer := slice_to_minus1 (command_buffer s)\<rparr>)"
    using assms(1) by (auto simp: clean_def slice_to_minus1_butlast dest: in_set_butlastD)
  ultimately show ?thesis using False assms(1) by (simp add: record_keystroke_def)
qed

lemma read_str_short: "length (read_str k) \<le> 1"
  by (simp add: read_str_def split: option.splits)

lemma stdin_block_clean:
  assumes "clean log0 s"
  shows "clean log0 (state_of (stdin_block rt r b s))"
proof -
  have rd: "clean log0 (call Read s)" using assms by (simp add: clean_call)
  have "clean log0 (call (Send (read_str k)) (call Read s))" if "read_str k \<noteq> [GS]" for k
    using rd that short_str [OF read_str_short, of k GS] by (simp add: clean_call)
  then have "clean log0 (record_keystroke rt (read_str k) (call (Send (read_str k)) (call Read s)))"
      "clean log0 (call (Send (read_str k)) (call Read s))"
    if "read_str k \<noteq> [GS]" for k
    using that read_str_short [of k] by (simp_all add: record_keystroke_clean)
  with rd assms show ?thesis
    by (simp add: stdin_block_def Let_def split: sum.splits option.splits)
qed

lemma except_timeout_state: "state_of (except_timeout e s) = s"
  by (simp add: except_timeout_def)

lemma iteration_clean:
  assumes "clean log0 s"
  shows "clean log0 (state_of (iteration rt r s))"
proof -
  have c0: "clean log0 (call Select s)" using assms by (simp add: clean_call)
  then have c1: "clean log0 (call Recv (call Select s))" by (simp add: clean_call)
  then have c2: "clean log0 (call (Write t) (call Recv (call Select s)))" for t
    by (simp add: clean_call)
  then have c3: "clean log0 (call Flush (call (Write t) (call Recv (call Select s))))" for t
    by (simp add: clean_call)
  show ?thesis
    using c0 c1 c2 c3
    by (simp add: iteration_def Let_def except_timeout_state stdin_block_clean
        split: sum.splits option.splits prod.splits)
qed

lemma loop_clean: "clean log0 s \<Longrightarrow> clean log0 (state_of (loop rt rs s))"
proof (induction rs arbitrary: s)
  case Nil
  then show ?case by simp
next
  case (Cons r rs)
  from Cons.prems have "clean log0 (state_of (iteration rt r s))" by (rule iteration_clean)
  with Cons.IH show ?case by (cases "iteration rt r s") simp_all
qed

lemma finally_block_clean:
  assumes "clean log0 s"
  shows "clean log0 (snd (finally_block ev a pending s))"
proof -
  define s1 where "s1 = (if strip (command_buffer s) \<noteq> [] then
      s\<lparr>commands_log := commands_log s @ [strip (command_buffer s)]\<rparr> else s)"
  have "clean log0 s1" using assms clean_append_entry [OF assms] by (simp add: s1_def)
  then have "clean log0 (s1\<lparr>calls := calls s1 @ [TcSetAttr a]\<rparr>)"
    "clean log0 (s1\<lparr>calls := (calls s1 @ [TcSetAttr a]) @ [Print m]\<rparr>)" for m
    by (simp_all add: clean_def)
  then show ?thesis
    unfolding finally_block_def restore_terminal_def s1_def [symmetric]
    by (simp add: Let_def split: option.splits)
qed

lemma fresh_clean: "list_all clean_call io \<Longrightarrow> clean log0 \<lparr>command_buffer = [], commands_log = log0, calls = io\<rparr>"
  by (simp add: clean_def)

lemma interactive_shell_clean: "clean log0 (snd (interactive_shell rt ev log0))"
proof -
  have "clean log0 (state_of (loop rt rs \<lparr>command_buffer = [], commands_log = log0, calls = [TcGetAttr, SetRaw]\<rparr>))" for rs
    by (rule loop_clean) (simp add: fresh_clean)
  then show ?thesis
    unfolding interactive_shell_def setup_terminal_def
    by (auto simp: fresh_clean finally_block_clean split: sum.splits option.splits flow.splits
        dest!: arg_cong [where f = state_of] )
qed

section \<open>The log grows, the terminal calls are fixed\<close>

lemma monitor_loop_kind:
  "monitor_loop rt rs io = map_flow calls (loop rt rs (fresh log0 io))"
  using monitor_loop_sim [of rt rs "fresh log0 io"] by (simp add: fresh_def)

lemma record_keystroke_log_prefix:
  "prefix (commands_log s) (commands_log (record_keystroke rt char s))"
  by (simp add: record_keystroke_def)

lemma commands_log_call: "commands_log (call c s) = commands_log s"
  by (simp add: call_def)

lemma stdin_block_log_prefix:
  "prefix (commands_log s) (commands_log (state_of (stdin_block rt r b s)))"
proof -
  have "prefix (commands_log s) (commands_log (record_keystroke rt c (call x (call y s))))" for c x y
    using record_keystroke_log_prefix [of "call x (call y s)" rt c] by (simp add: commands_log_call)
  then show ?thesis
    by (simp add: stdin_block_def Let_def commands_log_call split: sum.splits option.splits)
qed

lemma iteration_log_prefix:
  "prefix (commands_log s) (commands_log (state_of (iteration rt r s)))"
proof -
  have "prefix (commands_log s) (commands_log (state_of (stdin_block rt r b s')))"
    if "commands_log s' = commands_log s" for s' b
    using stdin_block_log_prefix [of s' rt r b] that by simp
  then show ?thesis
    by (simp add: iteration_def Let_def except_timeout_state commands_log_call
        split: sum.splits option.splits prod.splits)
qed

lemma loop_log_prefix:
  "prefix (commands_log s) (commands_log (state_of (loop rt rs s)))"
proof (induction rs arbitrary: s)
  case Nil
  show ?case by simp
next
  case (Cons r rs)
  have p: "prefix (commands_log s) (commands_log (state_of (iteration rt r s)))"
    by (rule iteration_log_prefix)
  show ?case
  proof (cases "iteration rt r s")
    case (Continue s')
    with p Cons.IH [of s'] show ?thesis by (auto intro: prefix_order.trans)
  next
    case (Break s')
    with p show ?thesis by simp
  next
    case (Raise e s')
    with p show ?thesis by simp
  qed
qed

lemma loop_append:
  "loop rt (rs @ rs') s =
     (case loop rt rs s of Continue s' \<Rightarrow> loop rt rs' s' | Break s' \<Rightarrow> Break s' | Raise e s' \<Rightarrow> Raise e s')"
  by (induction rs arbitrary: s) (simp_all split: flow.splits)

lemma loop_append_log_prefix:
  "prefix (commands_log (state_of (loop rt rs s))) (commands_log (state_of (loop rt (rs @ rs') s)))"
  by (cases "loop rt rs s") (simp_all add: loop_append loop_log_prefix)

lemma finally_block_log:
  "commands_log (snd (finally_block ev a pending s)) =
     (if strip (command_buffer s) \<noteq> [] then commands_log s @ [strip (command_buffer s)]
      else commands_log s)"
  by (simp add: finally_block_def restore_terminal_def Let_def split: option.splits)

lemma stdin_block_tty:
  "filter tty_call (calls (state_of (stdin_block rt r b s))) = filter tty_call (calls s)"
  by (simp add: stdin_block_def Let_def call_def calls_record_keystroke
      split: sum.splits option.splits)

lemma iteration_tty:
  "filter tty_call (calls (state_of (iteration rt r s))) = filter tty_call (calls s)"
  by (simp add: iteration_def Let_def call_def except_timeout_state stdin_block_tty
      split: sum.splits option.splits prod.splits)

lemma loop_tty:
  "filter tty_call (calls (state_of (loop rt rs s))) = filter tty_call (calls s)"
proof (induction rs arbitrary: s)
  case Nil
  show ?case by simp
next
  case (Cons r rs)
  show ?case
    using iteration_tty [of rt r s] Cons.IH
    by (cases "iteration rt r s") simp_all
qed

lemma finally_block_tty:
  "filter tty_call (calls (snd (finally_block ev a pending s))) =
     filter tty_call (calls s) @ [TcSetAttr a]"
  by (simp add: finally_block_def restore_terminal_def Let_def split: option.splits)

lemma finally_block_ended: "fst (finally_block ev a pending s) \<noteq> Waiting"
  by (simp add: finally_block_def restore_terminal_def Let_def split: option.splits)

lemma interactive_shell_tty:
  "filter tty_call (calls (snd (interactive_shell rt ev log0))) =
     (case tcgetattr_result ev of
        Inl e \<Rightarrow> [TcGetAttr]
      | Inr a \<Rightarrow>
          (case setraw_result ev of
             Some e \<Rightarrow> [TcGetAttr, SetRaw]
           | None \<Rightarrow>
               if fst (interactive_shell rt ev log0) = Waiting then [TcGetAttr, SetRaw]
               else [TcGetAttr, SetRaw, TcSetAttr a]))"
proof (cases "tcgetattr_result ev")
  case (Inl e)
  then show ?thesis by (simp add: interactive_shell_def setup_terminal_def)
next
  case (Inr a)
  show ?thesis
  proof (cases "setraw_result ev")
    case (Some e)
    with Inr show ?thesis by (simp add: interactive_shell_def setup_terminal_def)
  next
    case None
    let ?s0 = "\<lparr>command_buffer = [], commands_log = log0, calls = [TcGetAttr, SetRaw]\<rparr>"
    have t: "filter tty_call (calls (state_of (loop rt (iterations ev) ?s0))) = [TcGetAttr, SetRaw]"
      by (simp add: loop_tty)
    show ?thesis
      using t Inr None
      by (cases "loop rt (iterations ev) ?s0")
        (simp_all add: interactive_shell_def setup_terminal_def finally_block_tty
          finally_block_ended)
  qed
qed

section \<open>The monitor's shell against the administrator's\<close>

lemma monitor_finally_block_sim:
  "fst (monitor_finally_block ev a p (calls s)) = fst (finally_block ev a p s) \<and>
   filter forwarding (snd (monitor_finally_block ev a p (calls s))) =
     filter forwarding (calls (snd (finally_block ev a p s)))"
  by (simp add: monitor_finally_block_def finally_block_def restore_terminal_def Let_def
      split: option.splits)

lemma monitor_interactive_shell_sim:
  "fst (monitor_interactive_shell rt ev) = fst (interactive_shell rt ev log0) \<and>
   filter forwarding (snd (monitor_interactive_shell rt ev)) =
     filter forwarding (calls (snd (interactive_shell rt ev log0)))"
proof (cases "tcgetattr_result ev")
  case (Inl e)
  then show ?thesis
    by (simp add: monitor_interactive_shell_def interactive_shell_def setup_terminal_def)
next
  case (Inr a)
  show ?thesis
  proof (cases "setraw_result ev")
    case (Some e)
    with Inr show ?thesis
      by (simp add: monitor_interactive_shell_def interactive_shell_def setup_terminal_def)
  next
    case None
    let ?s0 = "\<lparr>command_buffer = [], commands_log = log0, calls = [TcGetAttr, SetRaw]\<rparr>"
    have m: "monitor_loop rt (iterations ev) [TcGetAttr, SetRaw] =
        map_flow calls (loop rt (iterations ev) ?s0)"
      using monitor_loop_kind [of rt "iterations ev" "[TcGetAttr, SetRaw]" log0]
      by (simp add: fresh_def)
    show ?thesis
      using Inr None m
      by (cases "loop rt (iterations ev) ?s0")
        (simp_all add: monitor_interactive_shell_def interactive_shell_def setup_terminal_def
          monitor_finally_block_sim)
  qed
qed

lemma tty_call_forwarding: "filter tty_call (filter forwarding io) = filter tty_call io"
proof -
  have "(\<lambda>c. forwarding c \<and> tty_call c) = tty_call"
  proof
    fix c show "(forwarding c \<and> tty_call c) = tty_call c" by (cases c) simp_all
  qed
  then show ?thesis by simp
qed

lemma monitor_interactive_shell_tty:
  "filter tty_call (snd (monitor_interactive_shell rt ev)) =
     filter tty_call (calls (snd (interactive_shell rt ev log0)))"
  using monitor_interactive_shell_sim [of rt ev log0]
    tty_call_forwarding [of "snd (monitor_interactive_shell rt ev)"]
    tty_call_forwarding [of "calls (snd (interactive_shell rt ev log0))"]
  by simp

lemma monitor_sends:
  assumes "Send x \<in> set (snd (monitor_interactive_shell rt ev))"
  shows "Send x \<in> set (calls (snd (interactive_shell rt ev log0)))"
proof -
  from assms have "Send x \<in> set (filter forwarding (snd (monitor_interactive_shell rt ev)))"
    by simp
  then have "Send x \<in> set (filter forwarding (calls (snd (interactive_shell rt ev log0))))"
    using monitor_interactive_shell_sim [of rt ev log0] by simp
  then show ?thesis by simp
qed

lemma clean_sends: "clean log0 s \<Longrightarrow> Send x \<in> set (calls s) \<Longrightarrow> GS \<notin> set x"
  by (auto simp: clean_def list_all_iff)

lemma clean_entries:
  "clean log0 s \<Longrightarrow> e \<in> set (drop (length log0) (commands_log s)) \<Longrightarrow> clean_entry e"
  by (auto simp: clean_def list_all_iff)

lemma monitor_interactive_shell_ended:
  "fst (monitor_interactive_shell rt ev) = fst (interactive_shell rt ev log0)"
  using monitor_interactive_shell_sim [of rt ev log0] by simp

section \<open>Evaluating concrete sessions\<close>

lemma iteration_keystroke:
  "iteration rt (keystroke c) s =
     (if c = GS then Break (call Read (call Select s))
      else Continue (record_keystroke rt [c] (call (Send [c]) (call Read (call Select s)))))"
  by (simp add: iteration_def keystroke_def pass_def stdin_block_def read_str_def Let_def)

lemma iteration_remote_eof: "iteration rt remote_eof s = Break (call Recv (call Select s))"
  by (simp add: iteration_def remote_eof_def pass_def Let_def)

lemma monitor_iteration_keystroke:
  "monitor_iteration rt (keystroke c) io =
     (if c = GS then Break (io @ [Select, Read]) else Continue (io @ [Select, Read, Send [c]]))"
  by (simp add: monitor_iteration_def keystroke_def pass_def monitor_stdin_block_def read_str_def Let_def)

lemmas eval_session =
  interactive_shell_def monitor_interactive_shell_def tty_env_def setup_terminal_def
  iteration_keystroke iteration_remote_eof monitor_iteration_keystroke
  record_keystroke_def call_def isprintable_def isprintable_char_def strip_def isspace_def
  slice_to_minus1_def finally_block_def monitor_finally_block_def restore_terminal_def Let_def

lemma iteration_send_fails:
  "c \<noteq> GS \<Longrightarrow> iteration rt (send_fails c) s = Raise SocketError (call (Send [c]) (call Read (call Select s)))"
  by (simp add: iteration_def send_fails_def keystroke_def pass_def stdin_block_def read_str_def Let_def)

lemma interactive_shell_exit:
  assumes "tcgetattr_result ev = Inr a" "setraw_result ev = None"
    and "loop rt (iterations ev) (fresh log0 [TcGetAttr, SetRaw]) = Break s \<or>
         loop rt (iterations ev) (fresh log0 [TcGetAttr, SetRaw]) = Raise e s"
  shows "commands_log (snd (interactive_shell rt ev log0)) =
           (if strip (command_buffer s) \<noteq> [] then commands_log s @ [strip (command_buffer s)]
            else commands_log s) \<and>
         fst (interactive_shell rt ev log0) \<noteq> Waiting"
  using assms
  by (auto simp: interactive_shell_def setup_terminal_def fresh_def finally_block_log
      finally_block_ended)

lemma monitor_iteration_write_fails:
  "data \<noteq> [] \<Longrightarrow> decode rt data = Some text \<Longrightarrow>
   monitor_iteration rt (write_fails data) io = Raise StdoutError (io @ [Select, Recv, Write text])"
  by (simp add: monitor_iteration_def write_fails_def pass_def Let_def except_timeout_def)

lemma decode_ascii_runtime_prompt: "decode ascii_runtime ''$ '' = Some [36, 32]"
  by (simp add: ascii_runtime_def)

lemma strip_all_space: "list_all isspace b \<Longrightarrow> strip b = []"
proof -
  assume "list_all isspace b"
  then have d: "dropWhile isspace b = []" by (induction b) simp_all
  show ?thesis unfolding strip_def d by simp
qed

lemma record_keystroke_GS: "record_keystroke rt [GS] s = s"
  by (simp add: record_keystroke_def isprintable_def isprintable_char_def)

lemma feed_clean: "clean log0 s \<Longrightarrow> clean log0 (feed rt cs s)"
proof (induction cs arbitrary: s)
  case Nil
  then show ?case by (simp add: feed_def)
next
  case (Cons c cs)
  have "clean log0 (record_keystroke rt [c] s)"
  proof (cases "c = GS")
    case True
    with Cons.prems show ?thesis by (simp add: record_keystroke_GS)
  next
    case False
    with Cons.prems show ?thesis by (simp add: record_keystroke_clean)
  qed
  from Cons.IH [OF this] show ?case by (simp add: feed_def)
qed

lemma fresh_is_clean: "clean log0 (fresh log0 [])"
  by (simp add: fresh_def clean_def)

section \<open>One pass with both sources ready\<close>

lemma stdin_block_reads:
  "prefix (calls s @ [Read]) (calls (state_of (stdin_block rt r True s)))"
  by (simp add: stdin_block_def Let_def call_def calls_record_keystroke
      split: sum.splits option.splits)

lemma iteration_both_ready_data:
  assumes "select_result r = Inr (True, True)" "recv_result r = Inr data" "data \<noteq> []"
    "decode rt data = Some t" "write_result r = None" "flush_result r = None"
  shows "iteration rt r s =
      stdin_block rt r True (call Flush (call (Write t) (call Recv (call Select s))))"
    and "prefix (calls s @ [Select, Recv, Write t, Flush, Read])
      (calls (state_of (iteration rt r s)))"
proof -
  show e: "iteration rt r s =
      stdin_block rt r True (call Flush (call (Write t) (call Recv (call Select s))))"
    using assms by (simp add: iteration_def Let_def)
  show "prefix (calls s @ [Select, Recv, Write t, Flush, Read])
      (calls (state_of (iteration rt r s)))"
    unfolding e
    using stdin_block_reads [of "call Flush (call (Write t) (call Recv (call Select s)))" rt r]
    by (simp add: call_def)
qed

lemma iteration_both_ready_timeout:
  assumes "select_result r = Inr (True, True)" "recv_result r = Inl SocketTimeout"
  shows "iteration rt r s = Continue (call Recv (call Select s))"
  using assms by (simp add: iteration_def Let_def except_timeout_def)

section \<open>The claims\<close>

text \<open>
  C1, as stated: the three \<open>interactive_shell\<close> functions behave alike, down to the
  command log. They do not: after the keys \<open>l s CR GS\<close> the administrator's shell has
  logged \<open>ls\<close>, and the monitor's shell, which is given no log, has logged nothing.
\<close>

theorem shells_differ_on_log:
  "logged (admin_behaviour ascii_runtime (tty_env (map keystroke [108, 115, CR, GS])) []) =
     [[108, 115]] \<and>
   logged (monitor_behaviour ascii_runtime (tty_env (map keystroke [108, 115, CR, GS])) []) = [] \<and>
   admin_behaviour ascii_runtime (tty_env (map keystroke [108, 115, CR, GS])) [] \<noteq>
     monitor_behaviour ascii_runtime (tty_env (map keystroke [108, 115, CR, GS])) []"
  by (simp add: admin_behaviour_def monitor_behaviour_def eval_session)

text \<open>
  C1, amended: the administrator's and the user's shell behave identically in every
  environment (same ending, same calls, same log). The monitor's shell ends the same way
  and makes the same calls apart from the text of the closing message, so it forwards the
  same characters in both directions; it produces no log entries.
\<close>

theorem shells_agree_up_to_log:
  "user_behaviour rt ev log0 = admin_behaviour rt ev log0 \<and>
   ending (monitor_behaviour rt ev log0) = ending (admin_behaviour rt ev log0) \<and>
   filter forwarding (effects (monitor_behaviour rt ev log0)) =
     filter forwarding (effects (admin_behaviour rt ev log0)) \<and>
   logged (monitor_behaviour rt ev log0) = log0"
  using monitor_interactive_shell_sim [of rt ev log0]
  by (simp add: user_behaviour_def admin_behaviour_def monitor_behaviour_def
      user_interactive_shell_eq case_prod_beta)

text \<open>
  C2: whenever the loop is left, by \<open>break\<close> (the exit character, or the remote end of
  stream) or by an exception, a command buffer that is non-empty after trimming is
  appended, trimmed, as the last entry of the log, and the session ends. This holds for
  the administrator's and for the user's shell.
\<close>

theorem pending_command_flushed:
  "(tcgetattr_result ev = Inr a \<and> setraw_result ev = None \<and>
    (loop rt (iterations ev) (fresh log0 [TcGetAttr, SetRaw]) = Break s \<or>
     loop rt (iterations ev) (fresh log0 [TcGetAttr, SetRaw]) = Raise e s) \<longrightarrow>
      commands_log (snd (interactive_shell rt ev log0)) =
        (if strip (command_buffer s) \<noteq> [] then commands_log s @ [strip (command_buffer s)]
         else commands_log s) \<and>
      fst (interactive_shell rt ev log0) \<noteq> Waiting) \<and>
   (tcgetattr_result ev = Inr a \<and> setraw_result ev = None \<and>
    (user_loop rt (iterations ev) (fresh log0 [TcGetAttr, SetRaw]) = Break s \<or>
     user_loop rt (iterations ev) (fresh log0 [TcGetAttr, SetRaw]) = Raise e s) \<longrightarrow>
      commands_log (snd (user_interactive_shell rt ev log0)) =
        (if strip (command_buffer s) \<noteq> [] then commands_log s @ [strip (command_buffer s)]
         else commands_log s) \<and>
      fst (user_interactive_shell rt ev log0) \<noteq> Waiting)"
  using interactive_shell_exit [of ev a rt log0 s e]
  by (simp add: user_loop_eq user_interactive_shell_eq)

text \<open>
  C2, at concrete sessions: \<open>ls\<close> is typed without \<open>CR\<close>, then the remote side closes,
  or the exit character is typed, or a \<open>send\<close> raises. The log ends with \<open>ls\<close> each
  time.
\<close>

theorem pending_command_flushed_witness:
  "commands_log (snd (interactive_shell ascii_runtime
      (tty_env (map keystroke [108, 115] @ [remote_eof])) [])) = [[108, 115]] \<and>
   commands_log (snd (interactive_shell ascii_runtime
      (tty_env (map keystroke [108, 115, GS])) [])) = [[108, 115]] \<and>
   commands_log (snd (user_interactive_shell ascii_runtime
      (tty_env (map keystroke [108, 115] @ [send_fails 120])) [])) = [[108, 115]] \<and>
   fst (user_interactive_shell ascii_runtime
      (tty_env (map keystroke [108, 115] @ [send_fails 120])) []) = Raised SocketError"
proof -
  let ?s = "\<lambda>io. \<lparr>command_buffer = [108, 115], commands_log = [], calls = io\<rparr>"
  have a: "loop ascii_runtime (iterations (tty_env (map keystroke [108, 115] @ [remote_eof])))
      (fresh [] [TcGetAttr, SetRaw]) =
      Break (?s [TcGetAttr, SetRaw, Select, Read, Send [108], Select, Read, Send [115], Select, Recv])"
    by (simp add: fresh_def eval_session)
  have b: "loop ascii_runtime (iterations (tty_env (map keystroke [108, 115, GS])))
      (fresh [] [TcGetAttr, SetRaw]) =
      Break (?s [TcGetAttr, SetRaw, Select, Read, Send [108], Select, Read, Send [115], Select, Read])"
    by (simp add: fresh_def eval_session)
  have c: "user_loop ascii_runtime (iterations (tty_env (map keystroke [108, 115] @ [send_fails 120])))
      (fresh [] [TcGetAttr, SetRaw]) =
      Raise SocketError (?s [TcGetAttr, SetRaw, Select, Read, Send [108], Select, Read, Send [115],
        Select, Read, Send [120]])"
    by (simp add: fresh_def user_loop_eq iteration_send_fails eval_session)
  have d: "fst (user_interactive_shell ascii_runtime
      (tty_env (map keystroke [108, 115] @ [send_fails 120])) []) = Raised SocketError"
    by (simp add: user_interactive_shell_eq iteration_send_fails eval_session)
  have t: "tcgetattr_result (tty_env rs) = Inr [1, 2, 3] \<and> setraw_result (tty_env rs) = None" for rs
    by (simp add: tty_env_def)
  show ?thesis
    using pending_command_flushed [of "tty_env (map keystroke [108, 115] @ [remote_eof])"
        "[1, 2, 3]" ascii_runtime "[]" "?s [TcGetAttr, SetRaw, Select, Read, Send [108], Select, Read, Send [115], Select, Recv]" SocketError] a
      pending_command_flushed [of "tty_env (map keystroke [108, 115, GS])"
        "[1, 2, 3]" ascii_runtime "[]" "?s [TcGetAttr, SetRaw, Select, Read, Send [108], Select, Read, Send [115], Select, Read]" SocketError] b
      pending_command_flushed [of "tty_env (map keystroke [108, 115] @ [send_fails 120])"
        "[1, 2, 3]" ascii_runtime "[]" "?s [TcGetAttr, SetRaw, Select, Read, Send [108], Select, Read, Send [115],
        Select, Read, Send [120]]" SocketError] c d t
    by (simp add: strip_def isspace_def)
qed

text \<open>
  C3: in a session that has captured the terminal attributes and entered raw mode, and
  that has ended (by return or by any exception), the terminal calls are exactly
  \<open>tcgetattr\<close>, \<open>setraw\<close>, and one \<open>tcsetattr\<close> with the captured attributes. In any
  session at all, raw mode is entered at most once and the attributes are restored at most
  once. This holds for the administrator's and for the monitor's shell.
\<close>

theorem terminal_restored_once:
  "(tcgetattr_result ev = Inr a \<and> setraw_result ev = None \<and>
    fst (interactive_shell rt ev log0) \<noteq> Waiting \<longrightarrow>
      filter tty_call (calls (snd (interactive_shell rt ev log0))) =
        [TcGetAttr, SetRaw, TcSetAttr a]) \<and>
   (tcgetattr_result ev = Inr a \<and> setraw_result ev = None \<and>
    fst (monitor_interactive_shell rt ev) \<noteq> Waiting \<longrightarrow>
      filter tty_call (snd (monitor_interactive_shell rt ev)) =
        [TcGetAttr, SetRaw, TcSetAttr a]) \<and>
   length (filter (\<lambda>c. c = SetRaw) (calls (snd (interactive_shell rt ev log0)))) \<le> 1 \<and>
   length (filter restore_call (calls (snd (interactive_shell rt ev log0)))) \<le> 1 \<and>
   length (filter (\<lambda>c. c = SetRaw) (snd (monitor_interactive_shell rt ev))) \<le> 1 \<and>
   length (filter restore_call (snd (monitor_interactive_shell rt ev))) \<le> 1"
proof -
  let ?io = "calls (snd (interactive_shell rt ev log0))"
  let ?mo = "snd (monitor_interactive_shell rt ev)"
  have sub1: "filter (\<lambda>c. c = SetRaw) io = filter (\<lambda>c. c = SetRaw) (filter tty_call io)" for io
    by (induction io) auto
  have sub2: "filter restore_call io = filter restore_call (filter tty_call io)" for io
  proof (induction io)
    case Nil
    show ?case by simp
  next
    case (Cons c io)
    then show ?case by (cases c) simp_all
  qed
  have t: "filter tty_call ?io =
     (case tcgetattr_result ev of
        Inl e \<Rightarrow> [TcGetAttr]
      | Inr a \<Rightarrow>
          (case setraw_result ev of
             Some e \<Rightarrow> [TcGetAttr, SetRaw]
           | None \<Rightarrow>
               if fst (interactive_shell rt ev log0) = Waiting then [TcGetAttr, SetRaw]
               else [TcGetAttr, SetRaw, TcSetAttr a]))"
    by (rule interactive_shell_tty)
  have m: "filter tty_call ?mo = filter tty_call ?io"
    by (rule monitor_interactive_shell_tty)
  have e: "fst (monitor_interactive_shell rt ev) = fst (interactive_shell rt ev log0)"
    by (rule monitor_interactive_shell_ended)
  have c1: "length (filter (\<lambda>c. c = SetRaw) (filter tty_call ?io)) \<le> 1"
    unfolding t by (simp split: sum.splits option.splits)
  have c2: "length (filter restore_call (filter tty_call ?io)) \<le> 1"
    unfolding t by (simp split: sum.splits option.splits)
  show ?thesis
    using c1 c2 sub1 [of ?io] sub2 [of ?io] sub1 [of ?mo] sub2 [of ?mo]
    unfolding m e by (simp add: t)
qed

text \<open>
  C3, at concrete sessions: one left with the exit character, one ended by an exception
  from \<open>sys.stdout.write\<close>.
\<close>

theorem terminal_restored_once_witness:
  "filter tty_call (calls (snd (interactive_shell ascii_runtime
      (tty_env (map keystroke [108, GS])) []))) = [TcGetAttr, SetRaw, TcSetAttr [1, 2, 3]] \<and>
   filter tty_call (snd (monitor_interactive_shell ascii_runtime
      (tty_env [keystroke 108, write_fails ''$ '']))) = [TcGetAttr, SetRaw, TcSetAttr [1, 2, 3]] \<and>
   fst (monitor_interactive_shell ascii_runtime
      (tty_env [keystroke 108, write_fails ''$ ''])) = Raised StdoutError"
proof -
  have a: "fst (interactive_shell ascii_runtime (tty_env (map keystroke [108, GS])) []) = Returned"
    by (simp add: eval_session)
  have b: "fst (monitor_interactive_shell ascii_runtime
      (tty_env [keystroke 108, write_fails ''$ ''])) = Raised StdoutError"
    by (simp add: eval_session monitor_iteration_write_fails [OF _ decode_ascii_runtime_prompt])
  have t: "tcgetattr_result (tty_env rs) = Inr [1, 2, 3] \<and> setraw_result (tty_env rs) = None" for rs
    by (simp add: tty_env_def)
  show ?thesis
    using terminal_restored_once [of "tty_env (map keystroke [108, GS])" "[1, 2, 3]"
        ascii_runtime "[]"]
      terminal_restored_once [of "tty_env [keystroke 108, write_fails ''$ '']" "[1, 2, 3]"
        ascii_runtime "[]"] a b t
    by simp
qed

text \<open>
  C4: in every environment and at every moment of a session, no \<open>send\<close> carries the
  exit character \<open>GS\<close>, the command buffer does not contain it, and no entry added to
  the log contains it. The monitor's shell never sends it either. Lines 42--49 keep it
  out of the buffer even when it is fed to them directly.
\<close>

theorem sentinel_never_forwarded:
  "(\<forall>x. Send x \<in> set (calls (snd (interactive_shell rt ev log0))) \<longrightarrow> GS \<notin> set x) \<and>
   GS \<notin> set (command_buffer (snd (interactive_shell rt ev log0))) \<and>
   (\<forall>e \<in> set (drop (length log0) (commands_log (snd (interactive_shell rt ev log0)))).
      GS \<notin> set e) \<and>
   (\<forall>x. Send x \<in> set (snd (monitor_interactive_shell rt ev)) \<longrightarrow> GS \<notin> set x) \<and>
   GS \<notin> set (command_buffer (feed rt cs (fresh log0 [])))"
proof -
  have c: "clean log0 (snd (interactive_shell rt ev log0))"
    by (rule interactive_shell_clean)
  have f: "GS \<notin> set (command_buffer (feed rt cs (fresh log0 [])))"
    using feed_clean [OF fresh_is_clean, of log0 rt cs] by (simp add: clean_def)
  have c': "clean [] (snd (interactive_shell rt ev []))"
    by (rule interactive_shell_clean)
  have "GS \<notin> set (command_buffer (snd (interactive_shell rt ev log0)))"
    using c by (simp add: clean_def)
  moreover have "GS \<notin> set e"
    if "e \<in> set (drop (length log0) (commands_log (snd (interactive_shell rt ev log0))))" for e
    using clean_entries [OF c that] by (simp add: clean_entry_def)
  moreover have "GS \<notin> set x"
    if "Send x \<in> set (snd (monitor_interactive_shell rt ev))" for x
    using clean_sends [OF c' monitor_sends [OF that]] .
  ultimately show ?thesis using clean_sends [OF c] f by blast
qed

text \<open>
  C4, at a concrete session: the keys \<open>l CR s GS\<close> typed into a session started with
  one earlier log entry.
\<close>

theorem sentinel_never_forwarded_witness:
  "Send [108] \<in> set (calls (snd (interactive_shell ascii_runtime
      (tty_env (map keystroke [108, CR, 115, GS])) [[120]]))) \<and> GS \<notin> set [108] \<and>
   [115] \<in> set (drop (length [[120 :: nat]]) (commands_log (snd (interactive_shell ascii_runtime
      (tty_env (map keystroke [108, CR, 115, GS])) [[120]])))) \<and> GS \<notin> set [115] \<and>
   Send [115] \<in> set (snd (monitor_interactive_shell ascii_runtime
      (tty_env (map keystroke [108, CR, 115, GS])))) \<and>
   Send [GS] \<notin> set (snd (monitor_interactive_shell ascii_runtime
      (tty_env (map keystroke [108, CR, 115, GS])))) \<and>
   Send [GS] \<notin> set (calls (snd (interactive_shell ascii_runtime
      (tty_env (map keystroke [108, CR, 115, GS])) [[120]])))"
proof -
  have a: "snd (interactive_shell ascii_runtime (tty_env (map keystroke [108, CR, 115, GS])) [[120]]) =
    \<lparr>command_buffer = [115], commands_log = [[120], [108], [115]],
     calls = [TcGetAttr, SetRaw, Select, Read, Send [108], Select, Read, Send [CR],
       Select, Read, Send [115], Select, Read, TcSetAttr [1, 2, 3],
       Print (10 # str_of ''Connection closed.'')]\<rparr>"
    by (simp add: eval_session)
  have b: "snd (monitor_interactive_shell ascii_runtime (tty_env (map keystroke [108, CR, 115, GS]))) =
      [TcGetAttr, SetRaw, Select, Read, Send [108], Select, Read, Send [CR],
       Select, Read, Send [115], Select, Read, TcSetAttr [1, 2, 3],
       Print (10 # str_of ''Shell session ended.'')]"
    by (simp add: eval_session)
  show ?thesis
    using sentinel_never_forwarded [of ascii_runtime "tty_env (map keystroke [108, CR, 115, GS])"
        "[[120]]" "[]"]
    unfolding a b by simp
qed

text \<open>
  C5: every entry that a session adds to the log, and every entry added when any sequence
  of characters is fed to lines 42--49, is non-empty, also after trimming, and contains no
  \<open>CR\<close>. A \<open>CR\<close> typed while the buffer holds white space only adds no entry; in
  particular three blanks and \<open>CR\<close> leave the log as it was.
\<close>

theorem log_entries_well_formed:
  "(\<forall>e \<in> set (drop (length log0) (commands_log (snd (interactive_shell rt ev log0)))).
      strip e \<noteq> [] \<and> e \<noteq> [] \<and> CR \<notin> set e) \<and>
   (\<forall>e \<in> set (drop (length log0) (commands_log (feed rt cs (fresh log0 [])))).
      strip e \<noteq> [] \<and> e \<noteq> [] \<and> CR \<notin> set e) \<and>
   (list_all isspace (command_buffer s) \<longrightarrow>
      commands_log (record_keystroke rt [CR] s) = commands_log s) \<and>
   commands_log (feed rt (str_of ''   '' @ [CR]) (fresh log0 io)) = log0 \<and>
   commands_log (snd (interactive_shell rt (tty_env (map keystroke (str_of ''   '' @ [CR]))) [])) = []"
proof -
  have c: "clean log0 (snd (interactive_shell rt ev log0))"
    by (rule interactive_shell_clean)
  have f: "clean log0 (feed rt cs (fresh log0 []))"
    by (rule feed_clean [OF fresh_is_clean])
  have "strip e \<noteq> [] \<and> e \<noteq> [] \<and> CR \<notin> set e"
    if "e \<in> set (drop (length log0) (commands_log (snd (interactive_shell rt ev log0))))" for e
    using clean_entries [OF c that] by (auto simp: clean_entry_def strip_def)
  moreover have "strip e \<noteq> [] \<and> e \<noteq> [] \<and> CR \<notin> set e"
    if "e \<in> set (drop (length log0) (commands_log (feed rt cs (fresh log0 []))))" for e
    using clean_entries [OF f that] by (auto simp: clean_entry_def strip_def)
  moreover have "list_all isspace (command_buffer s) \<longrightarrow>
      commands_log (record_keystroke rt [CR] s) = commands_log s"
    by (simp add: record_keystroke_def strip_all_space)
  moreover have "commands_log (feed rt (str_of ''   '' @ [CR]) (fresh log0 io)) = log0"
    by (simp add: feed_def fresh_def str_of_def eval_session)
  moreover have "commands_log (snd (interactive_shell rt
      (tty_env (map keystroke (str_of ''   '' @ [CR]))) [])) = []"
    by (simp add: str_of_def eval_session)
  ultimately show ?thesis by blast
qed

text \<open>
  C5, at a concrete session: the keys \<open>l CR blank CR s GS\<close>, typed into a session
  started with one earlier entry, add the entries \<open>l\<close> and \<open>s\<close> and nothing for the
  blank line; and a sequence of characters fed to lines 42--49 directly.
\<close>

theorem log_entries_well_formed_witness:
  "[108] \<in> set (drop (length [[120 :: nat]]) (commands_log (snd (interactive_shell ascii_runtime
      (tty_env (map keystroke [108, CR, 32, CR, 115, GS])) [[120]])))) \<and>
   commands_log (snd (interactive_shell ascii_runtime
      (tty_env (map keystroke [108, CR, 32, CR, 115, GS])) [[120]])) = [[120], [108], [115]] \<and>
   commands_log (feed ascii_runtime [32, 108, 32, CR, GS, CR, 115] (fresh [[120]] [])) =
     [[120], [108]] \<and>
   [108] \<in> set (drop (length [[120 :: nat]])
     (commands_log (feed ascii_runtime [32, 108, 32, CR, GS, CR, 115] (fresh [[120]] [])))) \<and>
   strip [108] \<noteq> [] \<and> CR \<notin> set [108] \<and>
   list_all isspace (command_buffer (fresh [] [] \<lparr>command_buffer := [32, 32]\<rparr>)) \<and>
   commands_log (record_keystroke ascii_runtime [CR] (fresh [] [] \<lparr>command_buffer := [32, 32]\<rparr>)) = []"
proof -
  have a: "commands_log (snd (interactive_shell ascii_runtime
      (tty_env (map keystroke [108, CR, 32, CR, 115, GS])) [[120]])) = [[120], [108], [115]]"
    by (simp add: eval_session)
  have b: "list_all isspace (command_buffer (fresh [] [] \<lparr>command_buffer := [32, 32]\<rparr>))"
    by (simp add: fresh_def isspace_def)
  have c: "commands_log (feed ascii_runtime [32, 108, 32, CR, GS, CR, 115] (fresh [[120]] [])) =
     [[120], [108]]"
    by (simp add: feed_def fresh_def eval_session)
  show ?thesis
    using log_entries_well_formed [of "[[120]]" ascii_runtime
        "tty_env (map keystroke [108, CR, 32, CR, 115, GS])" "[32, 108, 32, CR, GS, CR, 115]"
        "fresh [] [] \<lparr>command_buffer := [32, 32]\<rparr>"] b
    unfolding a c by (simp add: fresh_def)
qed

text \<open>
  C6: the characters \<open>ls DEL DEL pwd CR\<close>, fed to an empty buffer and an empty log, give
  the log \<open>[pwd]\<close>: the two deletions have emptied the buffer before \<open>pwd\<close> is typed.
  The same holds of a whole session in which these keys are typed.
\<close>

theorem backspaces_erase_ls:
  "feed rt (str_of ''ls'' @ [DEL, DEL] @ str_of ''pwd'' @ [CR]) (fresh [] io) =
     \<lparr>command_buffer = [], commands_log = [str_of ''pwd''], calls = io\<rparr> \<and>
   command_buffer (feed rt (str_of ''ls'' @ [DEL, DEL]) (fresh [] io)) = [] \<and>
   fst (interactive_shell rt
     (tty_env (map keystroke (str_of ''ls'' @ [DEL, DEL] @ str_of ''pwd'' @ [CR]))) []) = Waiting \<and>
   commands_log (snd (interactive_shell rt
     (tty_env (map keystroke (str_of ''ls'' @ [DEL, DEL] @ str_of ''pwd'' @ [CR]))) [])) =
     [str_of ''pwd''] \<and>
   commands_log (snd (interactive_shell rt
     (tty_env (map keystroke (str_of ''ls'' @ [DEL, DEL] @ str_of ''pwd'' @ [CR, GS]))) [])) =
     [str_of ''pwd'']"
  by (simp add: feed_def fresh_def str_of_def eval_session)

text \<open>
  C7: the characters \<open>ls -la CR\<close>, fed to an empty buffer and an empty log, give the log
  \<open>[ls -la]\<close> and leave the buffer empty. The same holds of a whole session in which
  these keys are typed.
\<close>

theorem line_is_logged:
  "feed rt (str_of ''ls -la'' @ [CR]) (fresh [] io) =
     \<lparr>command_buffer = [], commands_log = [str_of ''ls -la''], calls = io\<rparr> \<and>
   fst (interactive_shell rt (tty_env (map keystroke (str_of ''ls -la'' @ [CR]))) []) = Waiting \<and>
   command_buffer (snd (interactive_shell rt
     (tty_env (map keystroke (str_of ''ls -la'' @ [CR]))) [])) = [] \<and>
   commands_log (snd (interactive_shell rt
     (tty_env (map keystroke (str_of ''ls -la'' @ [CR]))) [])) = [str_of ''ls -la''] \<and>
   commands_log (snd (interactive_shell rt
     (tty_env (map keystroke (str_of ''ls -la'' @ [CR, GS]))) [])) = [str_of ''ls -la'']"
  by (simp add: feed_def fresh_def str_of_def eval_session)

text \<open>
  C8: \<open>DEL\<close> or \<open>BS\<close> removes the last character of the buffer and nothing else; on an
  empty buffer it leaves the buffer empty, the length never goes below zero, the log is
  untouched, and the pass continues without raising.
\<close>

theorem backspace_never_underflows:
  "c = DEL \<or> c = BS \<Longrightarrow>
     command_buffer (record_keystroke rt [c] s) = butlast (command_buffer s) \<and>
     (command_buffer s = [] \<longrightarrow> command_buffer (record_keystroke rt [c] s) = []) \<and>
     (\<forall>b x. command_buffer s = b @ [x] \<longrightarrow> command_buffer (record_keystroke rt [c] s) = b) \<and>
     int (length (command_buffer (record_keystroke rt [c] s))) =
       max 0 (int (length (command_buffer s)) - 1) \<and>
     commands_log (record_keystroke rt [c] s) = commands_log s \<and>
     (read_result r = Inr (Some c) \<and> send_result r = None \<longrightarrow>
        stdin_block rt r True s =
          Continue (record_keystroke rt [c] (call (Send [c]) (call Read s))))"
  by (auto simp: record_keystroke_def slice_to_minus1_butlast stdin_block_def read_str_def Let_def)

text \<open>C8, at concrete states: \<open>DEL\<close> on the empty buffer, \<open>BS\<close> on the buffer \<open>ls\<close>.\<close>

theorem backspace_never_underflows_witness:
  "command_buffer (record_keystroke ascii_runtime [DEL] (fresh [] [])) = [] \<and>
   command_buffer (record_keystroke ascii_runtime [BS] (fresh [] [] \<lparr>command_buffer := [108, 115]\<rparr>)) = [108] \<and>
   stdin_block ascii_runtime (keystroke DEL) True (fresh [] []) =
     Continue (fresh [] [Read, Send [DEL]])"
proof -
  have k: "read_result (keystroke DEL) = Inr (Some DEL) \<and> send_result (keystroke DEL) = None"
    by (simp add: keystroke_def pass_def)
  have e: "command_buffer (fresh [] []) = []"
    by (simp add: fresh_def)
  have n: "command_buffer (fresh [] [] \<lparr>command_buffer := [108, 115]\<rparr>) = [108] @ [115]"
    by simp
  show ?thesis
    using backspace_never_underflows [of DEL ascii_runtime "fresh [] []" "keystroke DEL"]
      backspace_never_underflows [of BS ascii_runtime
        "fresh [] [] \<lparr>command_buffer := [108, 115]\<rparr>" "keystroke BS"] k e n
    by (simp add: fresh_def call_def record_keystroke_def slice_to_minus1_def)
qed

text \<open>
  C9, as stated: whenever both sources are reported ready, both are processed before the
  next \<open>select\<close>, also when \<open>recv\<close> times out. It fails: with both ready and a
  \<open>recv\<close> that times out, the handler's \<open>continue\<close> ends the pass and no character is
  read from the keyboard.
\<close>

theorem timeout_skips_keyboard:
  "iteration ascii_runtime (pass True True (Inl SocketTimeout) (Some 108)) (fresh [] []) =
     Continue (fresh [] [Select, Recv]) \<and>
   Read \<notin> set (calls (state_of
     (iteration ascii_runtime (pass True True (Inl SocketTimeout) (Some 108)) (fresh [] [])))) \<and>
   user_iteration ascii_runtime (pass True True (Inl SocketTimeout) (Some 108)) (fresh [] []) =
     Continue (fresh [] [Select, Recv])"
  by (simp add: user_iteration_eq iteration_def pass_def fresh_def call_def Let_def
      except_timeout_def)

text \<open>
  C9, amended: when both sources are reported ready and \<open>recv\<close> returns data that is
  decoded, written and flushed, the same pass goes on to read one character from the
  keyboard and to handle it. When \<open>recv\<close> times out, the pass ends there: nothing but
  the two calls \<open>select\<close> and \<open>recv\<close> has happened, and the keyboard is left for a
  later pass. This holds for the administrator's and for the user's shell.
\<close>

theorem both_ready_processed_unless_timeout:
  "(select_result r = Inr (True, True) \<and> recv_result r = Inr data \<and> data \<noteq> [] \<and>
    decode rt data = Some t \<and> write_result r = None \<and> flush_result r = None \<longrightarrow>
      iteration rt r s =
        stdin_block rt r True (call Flush (call (Write t) (call Recv (call Select s)))) \<and>
      prefix (calls s @ [Select, Recv, Write t, Flush, Read])
        (calls (state_of (iteration rt r s))) \<and>
      user_iteration rt r s =
        user_stdin_block rt r True (call Flush (call (Write t) (call Recv (call Select s)))) \<and>
      prefix (calls s @ [Select, Recv, Write t, Flush, Read])
        (calls (state_of (user_iteration rt r s)))) \<and>
   (select_result r = Inr (True, True) \<and> recv_result r = Inl SocketTimeout \<longrightarrow>
      iteration rt r s = Continue (call Recv (call Select s)) \<and>
      user_iteration rt r s = Continue (call Recv (call Select s)))"
  using iteration_both_ready_data [of r data rt t s] iteration_both_ready_timeout [of r rt s]
  by (simp add: user_iteration_eq user_stdin_block_eq)

text \<open>
  C9, at concrete passes: the remote prompt arrives while \<open>l\<close> is typed; and \<open>recv\<close>
  times out while \<open>l\<close> is typed.
\<close>

theorem both_ready_processed_unless_timeout_witness:
  "iteration ascii_runtime (pass True True (Inr ''$ '') (Some 108)) (fresh [] []) =
     Continue \<lparr>command_buffer = [108], commands_log = [],
       calls = [Select, Recv, Write [36, 32], Flush, Read, Send [108]]\<rparr> \<and>
   user_iteration ascii_runtime (pass True True (Inl SocketTimeout) (Some 108)) (fresh [] []) =
     Continue (fresh [] [Select, Recv])"
proof -
  let ?r = "pass True True (Inr ''$ '') (Some 108)"
  let ?t = "pass True True (Inl SocketTimeout) (Some 108)"
  have a: "select_result ?r = Inr (True, True) \<and> recv_result ?r = Inr ''$ '' \<and> ''$ '' \<noteq> [] \<and>
      decode ascii_runtime ''$ '' = Some [36, 32] \<and> write_result ?r = None \<and> flush_result ?r = None"
    by (simp add: pass_def decode_ascii_runtime_prompt)
  have b: "select_result ?t = Inr (True, True) \<and> recv_result ?t = Inl SocketTimeout"
    by (simp add: pass_def)
  have c: "stdin_block ascii_runtime ?r True s =
      Continue (record_keystroke ascii_runtime [108] (call (Send [108]) (call Read s)))" for s
    by (simp add: stdin_block_def pass_def read_str_def Let_def)
  show ?thesis
    using both_ready_processed_unless_timeout [of ?r "''$ ''" ascii_runtime "[36, 32]" "fresh [] []"]
      both_ready_processed_unless_timeout [of ?t "''$ ''" ascii_runtime "[36, 32]" "fresh [] []"]
      a b
    by (simp add: c fresh_def call_def record_keystroke_def isprintable_def isprintable_char_def)
qed

text \<open>
  C10: the log a session is started with is a prefix of the log at every later moment:
  of the final log, of the log after each pass, and the log after some passes is a prefix
  of the log after more passes. Entries are thus only added at the end, in the order in
  which the lines were completed.
\<close>

theorem log_only_appended:
  "prefix log0 (commands_log (snd (interactive_shell rt ev log0))) \<and>
   prefix (commands_log s) (commands_log (state_of (iteration rt r s))) \<and>
   prefix (commands_log (state_of (loop rt rs s)))
     (commands_log (state_of (loop rt (rs @ rs') s)))"
  using interactive_shell_clean [of log0 rt ev] iteration_log_prefix [of s rt r]
    loop_append_log_prefix [of rt rs s rs']
  by (simp add: clean_def)

end
